theory Spec2Isabelle
  imports Main
begin

section \<open>Syntax tree nodes\<close>

text \<open>
  The plugin works on the syntax tree of its host. A node is an object with a type tag and
  the fields of that type. The node types the plugin tests for or builds have a constructor
  each, with the fields in the order of the host's builder functions:
  \<^item> \<open>Identifier name\<close>
  \<^item> \<open>MemberExpression object property computed\<close>
  \<^item> \<open>CallExpression callee arguments\<close>
  \<^item> \<open>ArrowFunctionExpression params body\<close>
  \<^item> \<open>ConditionalExpression test consequent alternate\<close>
  \<^item> \<open>BinaryExpression operator left right\<close>
  \<^item> \<open>AssignmentExpression operator left right\<close>
  \<^item> \<open>NullLiteral\<close>
  \<^item> \<open>BlockStatement body\<close>: the body of an arrow function written with curly braces.

  Every other node type is kept with its type tag and its children: \<open>OtherExpression\<close>
  for the types that are expressions (literals, function expressions, unary expressions
  and so on), \<open>OtherNode\<close> for those that are not (statements, patterns, spread
  elements and so on).
\<close>

datatype node =
    Identifier string
  | MemberExpression node node bool
  | CallExpression node "node list"
  | ArrowFunctionExpression "node list" node
  | ConditionalExpression node node node
  | BinaryExpression string node node
  | AssignmentExpression string node node
  | NullLiteral
  | BlockStatement "node list"
  | OtherExpression string "node list"
  | OtherNode string "node list"

text \<open>
  The type tests of the host read the type tag. \<open>t.isIdentifier\<close> is the function
  below; a test \<open>t.isCallExpression\<close>, \<open>t.isMemberExpression\<close> or
  \<open>t.isArrowFunctionExpression\<close> that is followed by a read of the fields of that type
  is a pattern on the constructor in the functions that follow.
\<close>

fun isIdentifier :: "node \<Rightarrow> bool" where
  "isIdentifier (Identifier name) = True"
| "isIdentifier _ = False"

text \<open>
  Modelled from the spec: \<open>t.isExpression\<close> is a function of the host. Section 4.1 has it
  tell a body that is a single expression from a block of statements, and section 3 lists
  the node types above as expressions; a node of another type is an expression or not by
  its constructor here.
\<close>

fun isExpression :: "node \<Rightarrow> bool" where
  "isExpression (BlockStatement body) = False"
| "isExpression (OtherNode tag children) = False"
| "isExpression _ = True"

section \<open>The builder of the nested conditional: class \<open>TransformedTernary\<close>\<close>

text \<open>
  \<open>generateUid\<close> is the name generator of the enclosing scope
  (\<open>path.scope.generateUidIdentifier\<close>, bound to the scope). It belongs to the host, so
  it is a parameter here: a function from the state of the scope's generator to the name
  it returns and the next state. The type \<open>'u\<close> of that state is left open.

  The fields of the object are those of the source. \<open>deepestTernary\<close> is a reference to
  a conditional node that the object built and that is part of the tree under
  \<open>expression\<close>: \<open>addLevel\<close> stores each conditional it builds either in \<open>expression\<close>
  or in the \<open>consequent\<close> field of the conditional that \<open>deepestTernary\<close> refers to, and
  then lets \<open>deepestTernary\<close> refer to the new one. The reference is modelled by the place
  of that node in the tree: \<open>Some k\<close> is the node reached from \<open>expression\<close> by reading
  the field \<open>consequent\<close> \<open>k\<close> times, \<open>None\<close> is \<open>null\<close>.
\<close>

record 'u TransformedTernary =
  generateUid :: "'u \<Rightarrow> string \<times> 'u"
  uids :: "string list"
  expression :: node
  deepestTernary :: "nat option"
  deepestExpression :: node

text \<open>The constructor.\<close>

definition new_TransformedTernary ::
  "node \<Rightarrow> ('u \<Rightarrow> string \<times> 'u) \<Rightarrow> 'u TransformedTernary" where
  "new_TransformedTernary expr gen =
     \<lparr> generateUid = gen,
       uids = [],
       expression = expr,
       deepestTernary = None,
       deepestExpression = expr \<rparr>"

text \<open>
  The method \<open>constructTernary(oldExpression, newExpression, uid)\<close> of the class (the
  source has a top-level function of the same name, which is \<open>constructTernary\<close> below).
\<close>

definition TransformedTernary_constructTernary :: "node \<Rightarrow> node \<Rightarrow> string \<Rightarrow> node" where
  "TransformedTernary_constructTernary oldExpression newExpression uid =
     ConditionalExpression
       (BinaryExpression ''!=''
          (AssignmentExpression ''='' (Identifier uid) oldExpression)
          NullLiteral)
       newExpression
       (Identifier uid)"

text \<open>
  The assignment \<open>this.deepestTernary.consequent = ternary\<close>: the field \<open>consequent\<close> of
  the conditional \<open>k\<close> steps below the root is overwritten. The last equation is never
  reached from \<open>addLevel\<close> (lemma \<open>constructTernary_deepest\<close> below: the reference always
  leads to a conditional); it leaves the tree as it is.
\<close>

fun assign_consequent :: "nat \<Rightarrow> node \<Rightarrow> node \<Rightarrow> node" where
  "assign_consequent 0 ternary (ConditionalExpression test consequent alternate) =
     ConditionalExpression test ternary alternate"
| "assign_consequent (Suc k) ternary (ConditionalExpression test consequent alternate) =
     ConditionalExpression test (assign_consequent k ternary consequent) alternate"
| "assign_consequent k ternary root = root"

definition addLevel :: "node \<Rightarrow> string \<Rightarrow> 'u TransformedTernary \<Rightarrow> 'u TransformedTernary" where
  "addLevel expr uid this =
     (let ternary = TransformedTernary_constructTernary (deepestExpression this) expr uid in
      (case deepestTernary this of
         None \<Rightarrow> this \<lparr> expression := ternary,
                        deepestTernary := Some 0,
                        deepestExpression := expr \<rparr>
       | Some k \<Rightarrow> this \<lparr> expression := assign_consequent k ternary (expression this),
                          deepestTernary := Some (Suc k),
                          deepestExpression := expr \<rparr>))"

text \<open>
  The two append methods draw a name from the generator, which changes the state of the
  scope: they take that state and return the new one beside the object. The arguments of a
  call node are always a list, so \<open>args || []\<close> is \<open>args\<close>.
\<close>

definition appendMethodCall ::
  "node list \<Rightarrow> 'u TransformedTernary \<times> 'u \<Rightarrow> 'u TransformedTernary \<times> 'u" where
  "appendMethodCall args st =
     (case st of (this, sc) \<Rightarrow>
        (case generateUid this sc of (uid, sc') \<Rightarrow>
           (let callExpression = CallExpression (Identifier uid) args;
                this' = addLevel callExpression uid this
            in (this' \<lparr> uids := uids this' @ [uid] \<rparr>, sc'))))"

definition appendPropertyAccess ::
  "node \<Rightarrow> bool \<Rightarrow> 'u TransformedTernary \<times> 'u \<Rightarrow> 'u TransformedTernary \<times> 'u" where
  "appendPropertyAccess property computed st =
     (case st of (this, sc) \<Rightarrow>
        (case generateUid this sc of (uid, sc') \<Rightarrow>
           (let accessedProperty = MemberExpression (Identifier uid) property computed;
                this' = addLevel accessedProperty uid this
            in (this' \<lparr> uids := uids this' @ [uid] \<rparr>, sc'))))"

section \<open>The functions of the plugin\<close>

fun getExpressionChainBase :: "node \<Rightarrow> node" where
  "getExpressionChainBase (CallExpression callee args) = getExpressionChainBase callee"
| "getExpressionChainBase (MemberExpression object property computed) =
     getExpressionChainBase object"
| "getExpressionChainBase n = n"

fun isIdxCall :: "node \<Rightarrow> bool" where
  "isIdxCall (CallExpression (Identifier name) args) = (name = ''idx'')"
| "isIdxCall _ = False"

fun constructTernary ::
  "node \<Rightarrow> node \<Rightarrow> ('u \<Rightarrow> string \<times> 'u) \<Rightarrow> 'u \<Rightarrow> 'u TransformedTernary \<times> 'u" where
  "constructTernary base (CallExpression callee args) gen sc =
     appendMethodCall args (constructTernary base callee gen sc)"
| "constructTernary base (MemberExpression object property computed) gen sc =
     appendPropertyAccess property computed (constructTernary base object gen sc)"
| "constructTernary base n gen sc = (new_TransformedTernary base gen, sc)"

subsection \<open>Validation\<close>

text \<open>
  \<open>file.buildCodeFrameError(node, message)\<close> builds the error that the plugin throws: it
  carries the node it points at and one of five messages. A throw is the result
  \<open>Inl\<close> of the error. The messages of the source, in the order of its checks:
  \<^item> \<open>ExactlyTwoArguments\<close>: the idx function takes exactly two arguments;
  \<^item> \<open>MustBeArrowFunction\<close>: the second argument supplied to idx must be an arrow
    function;
  \<^item> \<open>BodyMustBeExpression\<close>: the body of the arrow function supplied to idx must be a
    single expression (without curly braces);
  \<^item> \<open>ExactlyOneParameter\<close>: the arrow function supplied to idx must take exactly one
    parameter;
  \<^item> \<open>ParameterMustMatchBase\<close>: the parameter of the arrow function supplied to idx
    must match the base of the body expression.

  \<open>TypeError\<close> is the error of the language itself for reading a field of
  \<open>undefined\<close>: a node of another type than the one the code expects has no such field.
\<close>

datatype message =
    ExactlyTwoArguments
  | MustBeArrowFunction
  | BodyMustBeExpression
  | ExactlyOneParameter
  | ParameterMustMatchBase

datatype error = CodeFrameError node message | TypeError

text \<open>The field \<open>name\<close> of a node; a node without it reads as \<open>undefined\<close>.\<close>

fun name :: "node \<Rightarrow> string option" where
  "name (Identifier n) = Some n"
| "name _ = None"

text \<open>
  \<open>checkIdxArguments(file, node)\<close>. The parameter \<open>file\<close> only builds the errors and is
  left out. The checks are those of the source, in its order; the test for an arrow
  function is the case distinction on \<open>arrowFunction\<close>, which also gives the fields
  \<open>params\<close> and \<open>body\<close>. \<open>args[1]\<close> is read after the length of \<open>args\<close> is known
  to be 2, and \<open>params[0]\<close> after the length of \<open>params\<close> is known to be 1.
  \<open>arrowFunction.params[2] || arrowFunction\<close> is the third parameter where the
  function has one, the function otherwise. The visitor calls the function on calls of
  \<open>idx\<close> only; on a node without a field \<open>arguments\<close> the read of its length throws.
\<close>

fun checkIdxArguments :: "node \<Rightarrow> error + unit" where
  "checkIdxArguments (CallExpression callee args) =
     (if length args \<noteq> 2
      then Inl (CodeFrameError (CallExpression callee args) ExactlyTwoArguments)
      else
        (let arrowFunction = args ! 1 in
         (case arrowFunction of
            ArrowFunctionExpression params body \<Rightarrow>
              (if \<not> isExpression body
               then Inl (CodeFrameError body BodyMustBeExpression)
               else if length params \<noteq> 1
               then Inl (CodeFrameError
                           (if 2 < length params then params ! 2 else arrowFunction)
                           ExactlyOneParameter)
               else
                 (let bodyChainBase = getExpressionChainBase body in
                  if \<not> isIdentifier (params ! 0) \<or> \<not> isIdentifier bodyChainBase \<or>
                     name (params ! 0) \<noteq> name bodyChainBase
                  then Inl (CodeFrameError (params ! 0) ParameterMustMatchBase)
                  else Inr ()))
          | _ \<Rightarrow> Inl (CodeFrameError arrowFunction MustBeArrowFunction))))"
| "checkIdxArguments _ = Inl TypeError"

subsection \<open>The visitor of call expressions\<close>

text \<open>
  The host calls the visitor with a path: the node visited and its scope. Of the scope
  the plugin uses the name generator (\<open>generateUidIdentifier\<close>, a method of the scope
  with a state of its own) and \<open>push\<close>, which declares a variable in the scope;
  \<open>declared\<close> lists the names pushed, in order. \<open>path.replaceWith\<close> puts another node
  in the place of the node visited.

  The visitor changes the path in place and may throw. It returns its outcome
  (\<open>Inl\<close> of the error thrown, or \<open>Inr ()\<close>) together with the path as it is when the
  visitor returns or throws.
\<close>

record 'u scope =
  generateUidIdentifier :: "'u \<Rightarrow> string \<times> 'u"
  uidState :: 'u
  declared :: "string list"

record 'u path =
  path_node :: node
  path_scope :: "'u scope"

text \<open>
  Modelled from the spec: \<open>scope.push\<close> and \<open>path.replaceWith\<close> are functions of the
  host. By section 4.4 the first declares the temporary as a binding without initial value
  in the enclosing scope, and the second replaces the call node in place.
\<close>

definition push :: "'u scope \<Rightarrow> string \<Rightarrow> 'u scope" where
  "push sc uid = sc \<lparr> declared := declared sc @ [uid] \<rparr>"

definition replaceWith :: "node \<Rightarrow> 'u path \<Rightarrow> 'u path" where
  "replaceWith replacement path = path \<lparr> path_node := replacement \<rparr>"

text \<open>
  \<open>node.arguments[0]\<close> and \<open>node.arguments[1].body\<close> are read after the validation; on
  a node that has no such fields the read throws.
\<close>

definition idxVisitor_CallExpression :: "'u path \<Rightarrow> (error + unit) \<times> 'u path" where
  "idxVisitor_CallExpression path =
     (let node = path_node path in
      if isIdxCall node then
        (case checkIdxArguments node of
           Inl e \<Rightarrow> (Inl e, path)
         | Inr _ \<Rightarrow>
             (case node of
                CallExpression callee (arg0 # ArrowFunctionExpression params body # rest) \<Rightarrow>
                  (case constructTernary arg0 body
                          (generateUidIdentifier (path_scope path))
                          (uidState (path_scope path)) of
                     (ternary, u') \<Rightarrow>
                       (let path1 = path \<lparr> path_scope := (path_scope path) \<lparr> uidState := u' \<rparr> \<rparr>;
                            path2 = replaceWith (expression ternary) path1
                        in (Inr (),
                            path2 \<lparr> path_scope := foldl push (path_scope path2) (uids ternary) \<rparr>)))
              | _ \<Rightarrow> (Inl TypeError, path)))
      else (Inr (), path))"

subsection \<open>The visitor of the program\<close>








section \<open>The chain and its guards, as the specification words them\<close>

text \<open>
  The specification describes the result without the object that is patched in place: the
  body of the arrow function is a chain of links on the parameter (section 4.2), each
  link gets a temporary and a guard \<open>(temporary = previousValue) != null ? nextValue :
  temporary\<close> (section 4.3), and the guards nest in the branch that holds the next value
  (section 9: a fold over the links). These definitions follow that wording; the lemma
  \<open>constructTernary_foldGuards\<close> ties the code to them.
\<close>

datatype link = PropertyAccess node bool | MethodCall "node list"

fun decompose :: "node \<Rightarrow> link list" where
  "decompose (CallExpression callee args) = decompose callee @ [MethodCall args]"
| "decompose (MemberExpression object property computed) =
     decompose object @ [PropertyAccess property computed]"
| "decompose n = []"

fun nextValue :: "link \<Rightarrow> string \<Rightarrow> node" where
  "nextValue (PropertyAccess property computed) temporary =
     MemberExpression (Identifier temporary) property computed"
| "nextValue (MethodCall args) temporary = CallExpression (Identifier temporary) args"

definition guard :: "string \<Rightarrow> node \<Rightarrow> node \<Rightarrow> node" where
  "guard temporary previousValue valueBranch =
     ConditionalExpression
       (BinaryExpression ''!=''
          (AssignmentExpression ''='' (Identifier temporary) previousValue)
          NullLiteral)
       valueBranch
       (Identifier temporary)"

fun foldGuards :: "node \<Rightarrow> (link \<times> string) list \<Rightarrow> node" where
  "foldGuards previousValue [] = previousValue"
| "foldGuards previousValue ((l, temporary) # rest) =
     guard temporary previousValue (foldGuards (nextValue l temporary) rest)"

text \<open>The first \<open>n\<close> names that the generator returns from a state, and the state after them.\<close>

fun freshNames :: "('u \<Rightarrow> string \<times> 'u) \<Rightarrow> 'u \<Rightarrow> nat \<Rightarrow> string list \<times> 'u" where
  "freshNames gen sc 0 = ([], sc)"
| "freshNames gen sc (Suc n) =
     (case freshNames gen sc n of (names, sc') \<Rightarrow>
        (case gen sc' of (uid, sc'') \<Rightarrow> (names @ [uid], sc'')))"

text \<open>The value of the chain after its last link, not yet guarded.\<close>

definition deepestValue :: "node \<Rightarrow> (link \<times> string) list \<Rightarrow> node" where
  "deepestValue base lus =
     (if lus = [] then base else nextValue (fst (last lus)) (snd (last lus)))"

text \<open>The object that \<open>constructTernary\<close> returns, in closed form.\<close>

definition builtState ::
  "node \<Rightarrow> ('u \<Rightarrow> string \<times> 'u) \<Rightarrow> (link \<times> string) list \<Rightarrow> string list
   \<Rightarrow> 'u TransformedTernary" where
  "builtState base gen lus names =
     \<lparr> generateUid = gen,
       uids = names,
       expression = foldGuards base lus,
       deepestTernary = (if lus = [] then None else Some (length lus - 1)),
       deepestExpression = deepestValue base lus \<rparr>"

text \<open>A name generator for the examples: a counter, whose names differ in their length.\<close>

definition counterUid :: "nat \<Rightarrow> string \<times> nat" where
  "counterUid n = (''_ref'' @ replicate n (CHR ''x''), Suc n)"

section \<open>The conditions of the validator, as the specification words them\<close>

text \<open>
  The conditions of the specification (section 4.1), each stated on the argument list of
  the call alone and without the functions of the plugin, and the order in which it says
  they are checked. \<open>lambdaOf\<close> is the second argument when it is an arrow function: its
  parameters and its body. A condition about the arrow function does not hold when there
  is none, and the parameter does not match when there is no parameter.

  \<open>rootedAt x body\<close>: the body, with its nested calls and member accesses unwrapped down
  to its root, is the bare identifier \<open>x\<close>. The parameter matches when it is an
  identifier \<open>x\<close> and the body is rooted at \<open>x\<close>.
\<close>

fun rootedAt :: "string \<Rightarrow> node \<Rightarrow> bool" where
  "rootedAt x (Identifier y) = (y = x)"
| "rootedAt x (MemberExpression object property computed) = rootedAt x object"
| "rootedAt x (CallExpression callee args) = rootedAt x callee"
| "rootedAt x _ = False"

fun lambdaOf :: "node list \<Rightarrow> (node list \<times> node) option" where
  "lambdaOf (arg0 # ArrowFunctionExpression params body # rest) = Some (params, body)"
| "lambdaOf _ = None"

fun conditionHolds :: "node list \<Rightarrow> message \<Rightarrow> bool" where
  "conditionHolds args ExactlyTwoArguments = (length args = 2)"
| "conditionHolds args MustBeArrowFunction = (lambdaOf args \<noteq> None)"
| "conditionHolds args BodyMustBeExpression =
     (case lambdaOf args of Some (params, body) \<Rightarrow> isExpression body | None \<Rightarrow> False)"
| "conditionHolds args ExactlyOneParameter =
     (case lambdaOf args of Some (params, body) \<Rightarrow> length params = 1 | None \<Rightarrow> False)"
| "conditionHolds args ParameterMustMatchBase =
     (case lambdaOf args of
        Some (Identifier x # params, body) \<Rightarrow> rootedAt x body
      | _ \<Rightarrow> False)"

definition checkOrder :: "message list" where
  "checkOrder =
     [ExactlyTwoArguments, MustBeArrowFunction, BodyMustBeExpression, ExactlyOneParameter,
      ParameterMustMatchBase]"

definition firstViolated :: "node list \<Rightarrow> message option" where
  "firstViolated args = find (\<lambda>m. \<not> conditionHolds args m) checkOrder"

section \<open>Observations on a tree and on a text\<close>

text \<open>All the nodes of a tree, each as often as it occurs, the parent before its children.\<close>

fun subnodes :: "node \<Rightarrow> node list" where
  "subnodes (Identifier n) = [Identifier n]"
| "subnodes (MemberExpression object property computed) =
     MemberExpression object property computed # subnodes object @ subnodes property"
| "subnodes (CallExpression callee args) =
     CallExpression callee args # subnodes callee @ concat (map subnodes args)"
| "subnodes (ArrowFunctionExpression params body) =
     ArrowFunctionExpression params body # concat (map subnodes params) @ subnodes body"
| "subnodes (ConditionalExpression test consequent alternate) =
     ConditionalExpression test consequent alternate
       # subnodes test @ subnodes consequent @ subnodes alternate"
| "subnodes (BinaryExpression operator left right) =
     BinaryExpression operator left right # subnodes left @ subnodes right"
| "subnodes (AssignmentExpression operator left right) =
     AssignmentExpression operator left right # subnodes left @ subnodes right"
| "subnodes NullLiteral = [NullLiteral]"
| "subnodes (BlockStatement body) = BlockStatement body # concat (map subnodes body)"
| "subnodes (OtherExpression tag children) =
     OtherExpression tag children # concat (map subnodes children)"
| "subnodes (OtherNode tag children) = OtherNode tag children # concat (map subnodes children)"

definition countNodes :: "(node \<Rightarrow> bool) \<Rightarrow> node \<Rightarrow> nat" where
  "countNodes P e = length (filter P (subnodes e))"

fun isConditionalExpression :: "node \<Rightarrow> bool" where
  "isConditionalExpression (ConditionalExpression test consequent alternate) = True"
| "isConditionalExpression _ = False"

text \<open>
  The three places of a temporary \<open>u\<close> in a guard and in the value after it: the target
  of an assignment, the fallback of a conditional, and the object of a member access or
  the callee of a call.
\<close>

fun assignsTo :: "string \<Rightarrow> node \<Rightarrow> bool" where
  "assignsTo u (AssignmentExpression operator left right) = (left = Identifier u)"
| "assignsTo u _ = False"

fun fallsBackTo :: "string \<Rightarrow> node \<Rightarrow> bool" where
  "fallsBackTo u (ConditionalExpression test consequent alternate) = (alternate = Identifier u)"
| "fallsBackTo u _ = False"

fun continuesFrom :: "string \<Rightarrow> node \<Rightarrow> bool" where
  "continuesFrom u (MemberExpression object property computed) = (object = Identifier u)"
| "continuesFrom u (CallExpression callee args) = (callee = Identifier u)"
| "continuesFrom u _ = False"

text \<open>
  The expressions a link brings along from the body of the arrow function: the property
  of an access, the arguments of a call. \<open>operandCount P ls\<close> counts the nodes with
  \<open>P\<close> in the operands of the links \<open>ls\<close>.
\<close>

fun operandsOf :: "link \<Rightarrow> node list" where
  "operandsOf (PropertyAccess property computed) = [property]"
| "operandsOf (MethodCall args) = args"

definition operandCount :: "(node \<Rightarrow> bool) \<Rightarrow> link list \<Rightarrow> nat" where
  "operandCount P ls = sum_list (map (countNodes P) (concat (map operandsOf ls)))"

text \<open>
  The tests of the first \<open>n\<close> conditionals met from the root along the field
  \<open>consequent\<close>, and the tests that the guards of a chain have by the specification.
\<close>

fun spineTests :: "nat \<Rightarrow> node \<Rightarrow> node list" where
  "spineTests (Suc n) (ConditionalExpression test consequent alternate) =
     test # spineTests n consequent"
| "spineTests n e = []"

fun expectedTests :: "node \<Rightarrow> (link \<times> string) list \<Rightarrow> node list" where
  "expectedTests previousValue [] = []"
| "expectedTests previousValue ((l, temporary) # rest) =
     BinaryExpression ''!=''
       (AssignmentExpression ''='' (Identifier temporary) previousValue) NullLiteral
     # expectedTests (nextValue l temporary) rest"

text \<open>The node reached from the root by reading the field \<open>consequent\<close> \<open>k\<close> times.\<close>

fun consequentAt :: "nat \<Rightarrow> node \<Rightarrow> node option" where
  "consequentAt 0 root = Some root"
| "consequentAt (Suc k) (ConditionalExpression test consequent alternate) =
     consequentAt k consequent"
| "consequentAt (Suc k) root = None"



section \<open>Evaluation of the built expression\<close>

text \<open>
  The order in which the host language evaluates an expression of the node types that the
  builder emits: \<open>evaluated truthy e\<close> lists the nodes of \<open>e\<close> that a run evaluates,
  each at the moment its own evaluation is complete, which is when its effect (a read of a
  property, a call, a write to a variable) takes place. A member access evaluates its
  object, then its property when computed; a call its callee, then its arguments from
  left to right; a binary expression its left, then its right operand; an assignment to
  an identifier its right side; a conditional its test, then the consequent when the test
  came out true and the alternate otherwise. \<open>truthy\<close> tells for each test how it comes
  out in the run considered. An identifier and a literal are evaluated by themselves; a
  node of any other type, and an assignment to another target than an identifier, is
  taken as a whole.
\<close>

fun evaluated :: "(node \<Rightarrow> bool) \<Rightarrow> node \<Rightarrow> node list" where
  "evaluated truthy (MemberExpression object property computed) =
     evaluated truthy object @ (if computed then evaluated truthy property else [])
     @ [MemberExpression object property computed]"
| "evaluated truthy (CallExpression callee args) =
     evaluated truthy callee @ concat (map (evaluated truthy) args)
     @ [CallExpression callee args]"
| "evaluated truthy (ConditionalExpression test consequent alternate) =
     evaluated truthy test
     @ (if truthy test then evaluated truthy consequent else evaluated truthy alternate)
     @ [ConditionalExpression test consequent alternate]"
| "evaluated truthy (BinaryExpression operator left right) =
     evaluated truthy left @ evaluated truthy right @ [BinaryExpression operator left right]"
| "evaluated truthy (AssignmentExpression operator (Identifier n) right) =
     evaluated truthy right @ [AssignmentExpression operator (Identifier n) right]"
| "evaluated truthy e = [e]"

text \<open>
  What a link evaluates of its own before its step: a computed property, or the
  arguments of the call.
\<close>

fun operandsEvaluated :: "(node \<Rightarrow> bool) \<Rightarrow> link \<Rightarrow> node list" where
  "operandsEvaluated truthy (PropertyAccess property computed) =
     (if computed then evaluated truthy property else [])"
| "operandsEvaluated truthy (MethodCall args) = concat (map (evaluated truthy) args)"

text \<open>
  The steps of the chain in the built expression: the member accesses and calls on one
  of the temporaries.
\<close>

definition isLinkStep :: "string list \<Rightarrow> node \<Rightarrow> bool" where
  "isLinkStep names n = list_ex (\<lambda>u. continuesFrom u n) names"

section \<open>The builder in closed form\<close>

lemma length_freshNames: "length (fst (freshNames gen sc n)) = n"
  by (induction n) (auto split: prod.splits)

lemma assign_consequent_foldGuards:
  "lus \<noteq> [] \<Longrightarrow>
   assign_consequent (length lus - 1)
     (TransformedTernary_constructTernary (deepestValue base lus) (nextValue l u) u)
     (foldGuards base lus) = foldGuards base (lus @ [(l, u)])"
proof (induction lus arbitrary: base)
  case Nil
  then show ?case by simp
next
  case (Cons a lus)
  obtain l' u' where a: "a = (l', u')" by (cases a)
  show ?case
  proof (cases lus)
    case Nil
    then show ?thesis
      by (simp add: a deepestValue_def guard_def TransformedTernary_constructTernary_def)
  next
    case (Cons b lus')
    then have ne: "lus \<noteq> []" by simp
    have d: "deepestValue base ((l', u') # lus) = deepestValue (nextValue l' u') lus"
      using ne by (simp add: deepestValue_def)
    have len: "length ((l', u') # lus) - 1 = Suc (length lus - 1)"
      using ne by (cases lus) simp_all
    have "assign_consequent (Suc (length lus - 1))
            (TransformedTernary_constructTernary (deepestValue (nextValue l' u') lus)
               (nextValue l u) u)
            (foldGuards base ((l', u') # lus)) = foldGuards base (((l', u') # lus) @ [(l, u)])"
      using Cons.IH [OF ne, of "nextValue l' u'"] by (simp add: guard_def)
    then show ?thesis
      unfolding a len d .
  qed
qed

lemma addLevel_builtState:
  "addLevel (nextValue l uid) uid (builtState base gen lus names) =
     \<lparr> generateUid = gen,
       uids = names,
       expression = foldGuards base (lus @ [(l, uid)]),
       deepestTernary = Some (length lus),
       deepestExpression = nextValue l uid \<rparr>"
proof (cases "lus = []")
  case True
  then show ?thesis
    by (simp add: builtState_def addLevel_def deepestValue_def guard_def
        TransformedTernary_constructTernary_def)
next
  case False
  have k: "Suc (length lus - 1) = length lus"
    using False by (cases lus) simp_all
  show ?thesis
    using False assign_consequent_foldGuards [OF False, of base l uid] k
    by (simp add: builtState_def addLevel_def)
qed

lemma builtState_step:
  assumes "freshNames gen sc (length ls) = (names, sc')"
  shows "(addLevel (nextValue l uid) uid (builtState base gen (zip ls names) names))
           \<lparr> uids := names @ [uid] \<rparr>
         = builtState base gen (zip (ls @ [l]) (names @ [uid])) (names @ [uid])"
proof -
  have len: "length names = length ls"
    using length_freshNames [of gen sc "length ls"] assms by simp
  have z: "zip (ls @ [l]) (names @ [uid]) = zip ls names @ [(l, uid)]"
    using len by simp
  show ?thesis
    unfolding z addLevel_builtState
    by (simp add: builtState_def deepestValue_def)
qed

lemma constructTernary_foldGuards:
  "constructTernary base n gen sc =
     (case freshNames gen sc (length (decompose n)) of
        (names, sc') \<Rightarrow> (builtState base gen (zip (decompose n) names) names, sc'))"
proof (induction base n gen sc rule: constructTernary.induct)
  case (1 base callee args gen sc)
  obtain names sc' where f: "freshNames gen sc (length (decompose callee)) = (names, sc')"
    by (cases "freshNames gen sc (length (decompose callee))")
  obtain uid sc'' where g: "gen sc' = (uid, sc'')" by (cases "gen sc'")
  have gu: "generateUid (builtState base gen (zip (decompose callee) names) names) = gen"
    by (simp add: builtState_def)
  have u: "uids (addLevel (CallExpression (Identifier uid) args) uid
             (builtState base gen (zip (decompose callee) names) names)) = names"
    by (simp add: builtState_def addLevel_def split: option.splits)
  show ?case
    using builtState_step [OF f, where l = "MethodCall args" and uid = uid and base = base]
    by (simp add: 1 f g gu u appendMethodCall_def)
next
  case (2 base object property computed gen sc)
  obtain names sc' where f: "freshNames gen sc (length (decompose object)) = (names, sc')"
    by (cases "freshNames gen sc (length (decompose object))")
  obtain uid sc'' where g: "gen sc' = (uid, sc'')" by (cases "gen sc'")
  have gu: "generateUid (builtState base gen (zip (decompose object) names) names) = gen"
    by (simp add: builtState_def)
  have u: "uids (addLevel (MemberExpression (Identifier uid) property computed) uid
             (builtState base gen (zip (decompose object) names) names)) = names"
    by (simp add: builtState_def addLevel_def split: option.splits)
  show ?case
    using builtState_step [OF f, where l = "PropertyAccess property computed" and uid = uid and base = base]
    by (simp add: 2 f g gu u appendPropertyAccess_def)
qed (simp_all add: builtState_def new_TransformedTernary_def deepestValue_def)

lemma uids_constructTernary:
  "uids (fst (constructTernary base n gen sc)) = fst (freshNames gen sc (length (decompose n)))"
  by (simp add: constructTernary_foldGuards builtState_def split: prod.splits)

lemma length_uids_constructTernary:
  "length (uids (fst (constructTernary base n gen sc))) = length (decompose n)"
  by (simp add: uids_constructTernary length_freshNames)

lemma expression_constructTernary:
  "expression (fst (constructTernary base n gen sc)) =
     foldGuards base (zip (decompose n) (uids (fst (constructTernary base n gen sc))))"
  by (simp add: constructTernary_foldGuards builtState_def split: prod.splits)

text \<open>
  The reference \<open>deepestTernary\<close> is \<open>null\<close> only while the chain has no link; otherwise
  it leads to a conditional of the tree under \<open>expression\<close>, and the consequent of that
  conditional is \<open>deepestExpression\<close>.
\<close>

lemma consequentAt_foldGuards:
  "lus \<noteq> [] \<Longrightarrow>
   \<exists>test alternate. consequentAt (length lus - 1) (foldGuards base lus)
     = Some (ConditionalExpression test (deepestValue base lus) alternate)"
proof (induction lus arbitrary: base)
  case Nil
  then show ?case by simp
next
  case (Cons a lus)
  obtain l u where a: "a = (l, u)" by (cases a)
  show ?case
  proof (cases lus)
    case Nil
    then show ?thesis
      by (simp add: a deepestValue_def guard_def)
  next
    case (Cons b lus')
    then have ne: "lus \<noteq> []" by simp
    have d: "deepestValue base ((l, u) # lus) = deepestValue (nextValue l u) lus"
      using ne by (simp add: deepestValue_def)
    have len: "length ((l, u) # lus) - 1 = Suc (length lus - 1)"
      using ne by (cases lus) simp_all
    show ?thesis
      using Cons.IH [OF ne, of "nextValue l u"]
      unfolding a len d by (simp add: guard_def)
  qed
qed

lemma constructTernary_deepest:
  "(case deepestTernary (fst (constructTernary base n gen sc)) of
      None \<Rightarrow> decompose n = [] \<and> expression (fst (constructTernary base n gen sc)) = base
    | Some k \<Rightarrow>
        (\<exists>test alternate.
           consequentAt k (expression (fst (constructTernary base n gen sc)))
             = Some (ConditionalExpression test
                       (deepestExpression (fst (constructTernary base n gen sc))) alternate)))"
proof -
  obtain names sc' where f: "freshNames gen sc (length (decompose n)) = (names, sc')"
    by (cases "freshNames gen sc (length (decompose n))")
  have len: "length names = length (decompose n)"
    using length_freshNames [of gen sc "length (decompose n)"] f by simp
  show ?thesis
  proof (cases "decompose n")
    case Nil
    then show ?thesis
      using f by (simp add: constructTernary_foldGuards builtState_def)
  next
    case (Cons l ls)
    then have ne: "zip (decompose n) names \<noteq> []"
      using len by (cases names) auto
    show ?thesis
      using consequentAt_foldGuards [OF ne, of base] ne
      by (simp add: constructTernary_foldGuards f builtState_def)
  qed
qed

subsection \<open>Counting in the fold\<close>

lemma spineTests_foldGuards:
  "spineTests (length lus) (foldGuards prev lus) = expectedTests prev lus"
  by (induction lus arbitrary: prev) (auto simp: guard_def)

lemma subnodes_self: "e \<in> set (subnodes e)"
  by (cases e) simp_all

lemma subnodes_trans:
  "n \<in> set (subnodes e) \<Longrightarrow> m \<in> set (subnodes n) \<Longrightarrow> m \<in> set (subnodes e)"
  by (induction e rule: subnodes.induct) auto

lemma subnodes_nextValue:
  "subnodes (nextValue l u) = nextValue l u # Identifier u # concat (map subnodes (operandsOf l))"
  by (cases l) simp_all

lemma subnodes_guard:
  "subnodes (guard u prev v) =
     guard u prev v
     # BinaryExpression ''!='' (AssignmentExpression ''='' (Identifier u) prev) NullLiteral
     # AssignmentExpression ''='' (Identifier u) prev
     # Identifier u # subnodes prev @ NullLiteral # subnodes v @ [Identifier u]"
  by (simp add: guard_def)

lemma filter_concat_subnodes:
  "length (filter P (concat (map subnodes xs))) =
     sum_list (map (\<lambda>x. length (filter P (subnodes x))) xs)"
  by (induction xs) simp_all

lemma countNodes_nextValue:
  "countNodes P (nextValue l u) =
     of_bool (P (nextValue l u)) + of_bool (P (Identifier u))
     + sum_list (map (countNodes P) (operandsOf l))"
  unfolding countNodes_def by (simp add: subnodes_nextValue filter_concat_subnodes)

lemma countNodes_guard:
  "countNodes P (guard u prev v) =
     of_bool (P (guard u prev v))
     + of_bool (P (BinaryExpression ''!=''
                     (AssignmentExpression ''='' (Identifier u) prev) NullLiteral))
     + of_bool (P (AssignmentExpression ''='' (Identifier u) prev))
     + 2 * of_bool (P (Identifier u)) + of_bool (P NullLiteral)
     + countNodes P prev + countNodes P v"
  by (simp add: countNodes_def subnodes_guard)

lemma operandCount_Cons:
  "operandCount P (l # ls) = sum_list (map (countNodes P) (operandsOf l)) + operandCount P ls"
  by (simp add: operandCount_def)

lemma conditionals_foldGuards:
  "countNodes isConditionalExpression (foldGuards prev lus) =
     length lus + countNodes isConditionalExpression prev
     + operandCount isConditionalExpression (map fst lus)"
proof (induction lus arbitrary: prev)
  case Nil
  then show ?case by (simp add: operandCount_def)
next
  case (Cons a lus)
  obtain l u where a: "a = (l, u)" by (cases a)
  have n: "\<not> isConditionalExpression (nextValue l u)" by (cases l) simp_all
  show ?case
    by (simp add: a Cons.IH countNodes_guard countNodes_nextValue operandCount_Cons n)
      (simp add: guard_def)
qed

lemma identifiers_foldGuards:
  "countNodes (\<lambda>n. n = Identifier t) (foldGuards prev lus) =
     3 * count_list (map snd lus) t + countNodes (\<lambda>n. n = Identifier t) prev
     + operandCount (\<lambda>n. n = Identifier t) (map fst lus)"
proof (induction lus arbitrary: prev)
  case Nil
  then show ?case by (simp add: operandCount_def)
next
  case (Cons a lus)
  obtain l u where a: "a = (l, u)" by (cases a)
  have n: "nextValue l u \<noteq> Identifier t" by (cases l) simp_all
  show ?case
    by (simp add: a Cons.IH countNodes_guard countNodes_nextValue operandCount_Cons n)
      (simp add: guard_def)
qed

lemma assignsTo_foldGuards:
  "countNodes (assignsTo t) (foldGuards prev lus) =
     count_list (map snd lus) t + countNodes (assignsTo t) prev
     + operandCount (assignsTo t) (map fst lus)"
proof (induction lus arbitrary: prev)
  case Nil
  then show ?case by (simp add: operandCount_def)
next
  case (Cons a lus)
  obtain l u where a: "a = (l, u)" by (cases a)
  have n: "\<not> assignsTo t (nextValue l u)" by (cases l) simp_all
  show ?case
    by (simp add: a Cons.IH countNodes_guard countNodes_nextValue operandCount_Cons n)
      (simp add: guard_def)
qed

lemma fallsBackTo_foldGuards:
  "countNodes (fallsBackTo t) (foldGuards prev lus) =
     count_list (map snd lus) t + countNodes (fallsBackTo t) prev
     + operandCount (fallsBackTo t) (map fst lus)"
proof (induction lus arbitrary: prev)
  case Nil
  then show ?case by (simp add: operandCount_def)
next
  case (Cons a lus)
  obtain l u where a: "a = (l, u)" by (cases a)
  have n: "\<not> fallsBackTo t (nextValue l u)" by (cases l) simp_all
  show ?case
    by (simp add: a Cons.IH countNodes_guard countNodes_nextValue operandCount_Cons n)
      (simp add: guard_def)
qed

lemma continuesFrom_foldGuards:
  "countNodes (continuesFrom t) (foldGuards prev lus) =
     count_list (map snd lus) t + countNodes (continuesFrom t) prev
     + operandCount (continuesFrom t) (map fst lus)"
proof (induction lus arbitrary: prev)
  case Nil
  then show ?case by (simp add: operandCount_def)
next
  case (Cons a lus)
  obtain l u where a: "a = (l, u)" by (cases a)
  have n: "continuesFrom t (nextValue l u) = (u = t)" by (cases l) auto
  show ?case
    by (simp add: a Cons.IH countNodes_guard countNodes_nextValue operandCount_Cons n)
      (simp add: guard_def)
qed

lemma countNodes_zero:
  assumes "Identifier u \<notin> set (subnodes e)"
    and "\<And>n. P n \<Longrightarrow> Identifier u \<in> set (subnodes n)"
  shows "countNodes P e = 0"
proof -
  have "\<not> P n" if "n \<in> set (subnodes e)" for n
    using that assms subnodes_trans by blast
  then show ?thesis
    by (simp add: countNodes_def)
qed

lemma operandCount_zero:
  assumes "\<forall>operand \<in> set (concat (map operandsOf ls)). Identifier u \<notin> set (subnodes operand)"
    and "\<And>n. P n \<Longrightarrow> Identifier u \<in> set (subnodes n)"
  shows "operandCount P ls = 0"
proof -
  have "countNodes P operand = 0" if "operand \<in> set (concat (map operandsOf ls))" for operand
    using that assms countNodes_zero by blast
  then show ?thesis
    by (simp add: operandCount_def)
qed

lemma assignsTo_mentions: "assignsTo u n \<Longrightarrow> Identifier u \<in> set (subnodes n)"
  by (cases n) simp_all

lemma fallsBackTo_mentions: "fallsBackTo u n \<Longrightarrow> Identifier u \<in> set (subnodes n)"
  by (cases n) simp_all

lemma continuesFrom_mentions: "continuesFrom u n \<Longrightarrow> Identifier u \<in> set (subnodes n)"
  by (cases n) simp_all

lemma count_list_distinct: "distinct xs \<Longrightarrow> x \<in> set xs \<Longrightarrow> count_list xs x = 1"
  by (induction xs) (auto simp: count_list_0_iff)

lemma original_foldGuards:
  assumes "b \<noteq> NullLiteral"
    and "\<forall>u \<in> set (map snd lus). Identifier u \<notin> set (subnodes b)"
  shows "countNodes (\<lambda>n. n = b) (foldGuards prev lus) =
     countNodes (\<lambda>n. n = b) prev + operandCount (\<lambda>n. n = b) (map fst lus)"
  using assms(2)
proof (induction lus arbitrary: prev)
  case Nil
  then show ?case by (simp add: operandCount_def)
next
  case (Cons a lus)
  obtain l u where a: "a = (l, u)" by (cases a)
  have u: "Identifier u \<notin> set (subnodes b)"
    using Cons.prems a by simp
  have n1: "nextValue l u \<noteq> b"
    using u by (cases l) auto
  have n2: "Identifier u \<noteq> b"
    using u by auto
  have n3: "guard u prev v \<noteq> b" for v
    using u by (auto simp: guard_def)
  have n4: "BinaryExpression ''!='' (AssignmentExpression ''='' (Identifier u) prev) NullLiteral \<noteq> b"
    using u by auto
  have n5: "AssignmentExpression ''='' (Identifier u) prev \<noteq> b"
    using u by auto
  have ih: "countNodes (\<lambda>n. n = b) (foldGuards (nextValue l u) lus) =
     countNodes (\<lambda>n. n = b) (nextValue l u) + operandCount (\<lambda>n. n = b) (map fst lus)"
    using Cons.prems by (intro Cons.IH) simp
  show ?case
    using assms(1) n1 n2 n3 n4 n5
    by (simp add: a ih countNodes_guard countNodes_nextValue operandCount_Cons)
qed

subsection \<open>Evaluation of the fold\<close>

lemma evaluated_nextValue:
  "evaluated truthy (nextValue l u) =
     Identifier u # operandsEvaluated truthy l @ [nextValue l u]"
  by (cases l) simp_all

lemma evaluated_guard:
  "evaluated truthy (guard u prev v) =
     evaluated truthy prev
     @ [AssignmentExpression ''='' (Identifier u) prev, NullLiteral,
        BinaryExpression ''!='' (AssignmentExpression ''='' (Identifier u) prev) NullLiteral]
     @ (if truthy (BinaryExpression ''!='' (AssignmentExpression ''='' (Identifier u) prev)
                     NullLiteral)
        then evaluated truthy v else [Identifier u])
     @ [guard u prev v]"
  by (simp add: guard_def)

lemma evaluated_subnodes: "set (evaluated truthy e) \<subseteq> set (subnodes e)"
  by (induction truthy e rule: evaluated.induct) (auto simp: subnodes_self)

lemma evaluated_at_most_once:
  "length (filter P (evaluated truthy e)) \<le> countNodes P e"
  unfolding countNodes_def
proof (induction truthy e rule: evaluated.induct)
  case (2 truthy callee args)
  have "length (filter P (concat (map (evaluated truthy) args)))
        \<le> length (filter P (concat (map subnodes args)))"
    using 2(2) by (induction args) (auto simp: add_mono)
  then show ?case
    using 2(1) by simp
qed (auto simp: add_mono  trans_le_add1 trans_le_add2)

lemma evaluated_foldGuards_prefix:
  "take (length (evaluated truthy prev)) (evaluated truthy (foldGuards prev lus))
     = evaluated truthy prev"
  by (cases lus) (auto simp: evaluated_guard)

lemma isLinkStep_mentions:
  "isLinkStep names n \<Longrightarrow> \<exists>u \<in> set names. Identifier u \<in> set (subnodes n)"
  by (auto simp: isLinkStep_def list_ex_iff dest: continuesFrom_mentions)

lemma no_link_step_evaluated:
  assumes "\<forall>u \<in> set names. Identifier u \<notin> set (subnodes e)"
  shows "filter (isLinkStep names) (evaluated truthy e) = []"
proof -
  have "\<not> isLinkStep names n" if n: "n \<in> set (evaluated truthy e)" for n
  proof
    assume "isLinkStep names n"
    then obtain u where u: "u \<in> set names" "Identifier u \<in> set (subnodes n)"
      using isLinkStep_mentions by blast
    have "n \<in> set (subnodes e)"
      using n evaluated_subnodes by blast
    then have "Identifier u \<in> set (subnodes e)"
      using u(2) subnodes_trans by blast
    then show False
      using assms u(1) by blast
  qed
  then show ?thesis
    by (simp add: filter_empty_conv)
qed

lemma no_link_step_operands:
  assumes "\<forall>u \<in> set names. \<forall>operand \<in> set (operandsOf l). Identifier u \<notin> set (subnodes operand)"
  shows "filter (isLinkStep names) (operandsEvaluated truthy l) = []"
proof (cases l)
  case (PropertyAccess property computed)
  then show ?thesis
    using assms no_link_step_evaluated [of names property truthy] by simp
next
  case (MethodCall args)
  have "filter (isLinkStep names) (evaluated truthy a) = []" if "a \<in> set args" for a
    using that assms MethodCall no_link_step_evaluated [of names a truthy] by simp
  then show ?thesis
    using MethodCall by (simp add: filter_concat)
qed

lemma isLinkStep_nextValue: "u \<in> set names \<Longrightarrow> isLinkStep names (nextValue l u)"
  by (cases l) (auto simp: isLinkStep_def list_ex_iff)

lemma isLinkStep_simps [simp]:
  "\<not> isLinkStep names (Identifier n)"
  "\<not> isLinkStep names NullLiteral"
  "\<not> isLinkStep names (AssignmentExpression op l r)"
  "\<not> isLinkStep names (BinaryExpression op l r)"
  "\<not> isLinkStep names (ConditionalExpression t c a)"
  by (simp_all add: isLinkStep_def list_ex_iff)

lemma link_steps_foldGuards:
  assumes "set (map snd lus) \<subseteq> set names"
    and "\<forall>u \<in> set names. \<forall>operand \<in> set (concat (map operandsOf (map fst lus))).
           Identifier u \<notin> set (subnodes operand)"
  shows "filter (isLinkStep names)
           (drop (length (evaluated truthy prev)) (evaluated truthy (foldGuards prev lus)))
         = map (\<lambda>(l, u). nextValue l u)
             (take (length (takeWhile truthy (expectedTests prev lus))) lus)"
  using assms
proof (induction lus arbitrary: prev)
  case Nil
  then show ?case by simp
next
  case (Cons a lus)
  obtain l u where a: "a = (l, u)" by (cases a)
  let ?test = "BinaryExpression ''!='' (AssignmentExpression ''='' (Identifier u) prev) NullLiteral"
  have u: "u \<in> set names"
    using Cons.prems(1) a by simp
  have ops: "filter (isLinkStep names) (operandsEvaluated truthy l) = []"
    using Cons.prems(2) a by (intro no_link_step_operands) simp
  show ?case
  proof (cases "truthy ?test")
    case False
    then show ?thesis
      by (simp add: a evaluated_guard) (simp add: guard_def)
  next
    case True
    have split: "evaluated truthy (foldGuards (nextValue l u) lus)
        = evaluated truthy (nextValue l u)
          @ drop (length (evaluated truthy (nextValue l u)))
              (evaluated truthy (foldGuards (nextValue l u) lus))"
      using evaluated_foldGuards_prefix [of truthy "nextValue l u" lus]
      by (metis append_take_drop_id)
    have ih: "filter (isLinkStep names)
           (drop (length (evaluated truthy (nextValue l u)))
              (evaluated truthy (foldGuards (nextValue l u) lus)))
         = map (\<lambda>(l, u). nextValue l u)
             (take (length (takeWhile truthy (expectedTests (nextValue l u) lus))) lus)"
      using Cons.prems by (intro Cons.IH) auto
    have nv: "filter (isLinkStep names) (evaluated truthy (nextValue l u)) = [nextValue l u]"
      by (simp add: evaluated_nextValue ops isLinkStep_nextValue [OF u])
    have "filter (isLinkStep names) (evaluated truthy (foldGuards (nextValue l u) lus))
        = filter (isLinkStep names) (evaluated truthy (nextValue l u))
          @ filter (isLinkStep names)
              (drop (length (evaluated truthy (nextValue l u)))
                 (evaluated truthy (foldGuards (nextValue l u) lus)))"
      using split by (metis filter_append)
    then have "filter (isLinkStep names) (evaluated truthy (foldGuards (nextValue l u) lus))
        = nextValue l u # map (\<lambda>(l, u). nextValue l u)
             (take (length (takeWhile truthy (expectedTests (nextValue l u) lus))) lus)"
      unfolding nv ih by simp
    then show ?thesis
      using True by (simp add: a evaluated_guard) (simp add: guard_def)
  qed
qed

lemma linkSteps_foldGuards:
  assumes "set (map snd lus) \<subseteq> set names"
  shows "countNodes (isLinkStep names) (foldGuards prev lus) =
     length lus + countNodes (isLinkStep names) prev
     + operandCount (isLinkStep names) (map fst lus)"
  using assms
proof (induction lus arbitrary: prev)
  case Nil
  then show ?case by (simp add: operandCount_def)
next
  case (Cons a lus)
  obtain l u where a: "a = (l, u)" by (cases a)
  have u: "u \<in> set names"
    using Cons.prems a by simp
  have ih: "countNodes (isLinkStep names) (foldGuards (nextValue l u) lus) =
     length lus + countNodes (isLinkStep names) (nextValue l u)
     + operandCount (isLinkStep names) (map fst lus)"
    using Cons.prems by (intro Cons.IH) simp
  show ?case
    by (simp add: a ih countNodes_guard countNodes_nextValue operandCount_Cons
        isLinkStep_nextValue [OF u])
      (simp add: guard_def)
qed

section \<open>Concrete scenarios\<close>

text \<open>
  C1. The call \<open>idx(a, x => x.b.c)\<close>, for any base expression \<open>a\<close>: the visitor replaces
  the call by \<open>(t1 = a) != null ? ((t2 = t1.b) != null ? t2.c : t2) : t1\<close>, where
  \<open>t1\<close> and \<open>t2\<close> are the two names the generator of the scope returns; it declares
  both in the scope.
\<close>

theorem scenario_A_two_properties:
  "(case generateUidIdentifier sc (uidState sc) of (t1, s1) \<Rightarrow>
    (case generateUidIdentifier sc s1 of (t2, s2) \<Rightarrow>
       idxVisitor_CallExpression
         \<lparr> path_node =
             CallExpression (Identifier ''idx'')
               [a,
                ArrowFunctionExpression [Identifier ''x'']
                  (MemberExpression
                     (MemberExpression (Identifier ''x'') (Identifier ''b'') False)
                     (Identifier ''c'') False)],
           path_scope = sc \<rparr>
       = (Inr (),
          \<lparr> path_node =
              ConditionalExpression
                (BinaryExpression ''!=''
                   (AssignmentExpression ''='' (Identifier t1) a) NullLiteral)
                (ConditionalExpression
                   (BinaryExpression ''!=''
                      (AssignmentExpression ''='' (Identifier t2)
                         (MemberExpression (Identifier t1) (Identifier ''b'') False))
                      NullLiteral)
                   (MemberExpression (Identifier t2) (Identifier ''c'') False)
                   (Identifier t2))
                (Identifier t1),
            path_scope = sc \<lparr> uidState := s2, declared := declared sc @ [t1, t2] \<rparr> \<rparr>)))"
proof -
  obtain t1 s1 where g1: "generateUidIdentifier sc (uidState sc) = (t1, s1)"
    by (cases "generateUidIdentifier sc (uidState sc)")
  obtain t2 s2 where g2: "generateUidIdentifier sc s1 = (t2, s2)"
    by (cases "generateUidIdentifier sc s1")
  show ?thesis
    by (simp add: g1 g2 idxVisitor_CallExpression_def appendPropertyAccess_def addLevel_def
        new_TransformedTernary_def TransformedTernary_constructTernary_def replaceWith_def
        push_def Let_def)
qed

lemma visit_property_then_call:
  assumes "generateUidIdentifier sc (uidState sc) = (t1, s1)"
    and "generateUidIdentifier sc s1 = (t2, s2)"
  shows "idxVisitor_CallExpression
           \<lparr> path_node =
               CallExpression (Identifier ''idx'')
                 [a,
                  ArrowFunctionExpression [Identifier ''x'']
                    (CallExpression
                       (MemberExpression (Identifier ''x'') (Identifier ''b'') False) [])],
             path_scope = sc \<rparr>
         = (Inr (),
            \<lparr> path_node =
                ConditionalExpression
                  (BinaryExpression ''!=''
                     (AssignmentExpression ''='' (Identifier t1) a) NullLiteral)
                  (ConditionalExpression
                     (BinaryExpression ''!=''
                        (AssignmentExpression ''='' (Identifier t2)
                           (MemberExpression (Identifier t1) (Identifier ''b'') False))
                        NullLiteral)
                     (CallExpression (Identifier t2) [])
                     (Identifier t2))
                  (Identifier t1),
              path_scope = sc \<lparr> uidState := s2, declared := declared sc @ [t1, t2] \<rparr> \<rparr>)"
  by (simp add: assms idxVisitor_CallExpression_def appendPropertyAccess_def
      appendMethodCall_def addLevel_def new_TransformedTernary_def
      TransformedTernary_constructTernary_def replaceWith_def push_def Let_def)

text \<open>
  C3, as the code has it. The call \<open>idx(a, x => x.b())\<close>, for any base expression \<open>a\<close>:
  the visitor replaces the call by \<open>(t1 = a) != null ? ((t2 = t1.b) != null ? t2() : t2)
  : t1\<close>. The property access is the first link and the call the second: the second guard
  assigns the value of the access to \<open>t2\<close>, tests it and calls \<open>t2\<close>; its fallback is
  \<open>t2\<close>.
\<close>

theorem scenario_B_property_then_call:
  "(case generateUidIdentifier sc (uidState sc) of (t1, s1) \<Rightarrow>
    (case generateUidIdentifier sc s1 of (t2, s2) \<Rightarrow>
       idxVisitor_CallExpression
         \<lparr> path_node =
             CallExpression (Identifier ''idx'')
               [a,
                ArrowFunctionExpression [Identifier ''x'']
                  (CallExpression
                     (MemberExpression (Identifier ''x'') (Identifier ''b'') False) [])],
           path_scope = sc \<rparr>
       = (Inr (),
          \<lparr> path_node =
              ConditionalExpression
                (BinaryExpression ''!=''
                   (AssignmentExpression ''='' (Identifier t1) a) NullLiteral)
                (ConditionalExpression
                   (BinaryExpression ''!=''
                      (AssignmentExpression ''='' (Identifier t2)
                         (MemberExpression (Identifier t1) (Identifier ''b'') False))
                      NullLiteral)
                   (CallExpression (Identifier t2) [])
                   (Identifier t2))
                (Identifier t1),
            path_scope = sc \<lparr> uidState := s2, declared := declared sc @ [t1, t2] \<rparr> \<rparr>)))"
proof -
  obtain t1 s1 where g1: "generateUidIdentifier sc (uidState sc) = (t1, s1)"
    by (cases "generateUidIdentifier sc (uidState sc)")
  obtain t2 s2 where g2: "generateUidIdentifier sc s1 = (t2, s2)"
    by (cases "generateUidIdentifier sc s1")
  show ?thesis
    using visit_property_then_call [OF g1 g2, of a] by (simp add: g1 g2)
qed

text \<open>
  C3, as the claim words it, fails: for the base \<open>a\<close> and the counter as generator, the
  replacement is not \<open>(t1 = a) != null ? (t1.b != null ? (t2 = t1.b)() : t1.b) : t1\<close>,
  whatever the names \<open>t1\<close> and \<open>t2\<close>.
\<close>

theorem scenario_B_as_claimed_counterexample:
  "\<not> (\<exists>t1 t2.
        path_node (snd (idxVisitor_CallExpression
          \<lparr> path_node =
              CallExpression (Identifier ''idx'')
                [Identifier ''a'',
                 ArrowFunctionExpression [Identifier ''x'']
                   (CallExpression
                      (MemberExpression (Identifier ''x'') (Identifier ''b'') False) [])],
            path_scope =
              \<lparr> generateUidIdentifier = counterUid, uidState = 0, declared = [] \<rparr> \<rparr>))
        = ConditionalExpression
            (BinaryExpression ''!=''
               (AssignmentExpression ''='' (Identifier t1) (Identifier ''a'')) NullLiteral)
            (ConditionalExpression
               (BinaryExpression ''!=''
                  (MemberExpression (Identifier t1) (Identifier ''b'') False) NullLiteral)
               (CallExpression
                  (AssignmentExpression ''='' (Identifier t2)
                     (MemberExpression (Identifier t1) (Identifier ''b'') False)) [])
               (MemberExpression (Identifier t1) (Identifier ''b'') False))
            (Identifier t1))"
proof -
  have g1: "generateUidIdentifier
              \<lparr> generateUidIdentifier = counterUid, uidState = 0, declared = [] \<rparr>
              (uidState \<lparr> generateUidIdentifier = counterUid, uidState = 0::nat, declared = [] \<rparr>)
            = (''_ref'', 1)"
    by (simp add: counterUid_def)
  have g2: "generateUidIdentifier
              \<lparr> generateUidIdentifier = counterUid, uidState = 0::nat, declared = [] \<rparr> 1
            = (''_refx'', 2)"
    by (simp add: counterUid_def)
  show ?thesis
    unfolding visit_property_then_call [OF g1 g2] by simp
qed

text \<open>
  C9. The call \<open>idx(a, x => x)\<close>, whose chain has no link, for any base expression
  \<open>a\<close> and any parameter name: the validation passes, the visitor replaces the call by
  \<open>a\<close> itself, under no conditional, draws no name and declares nothing: the scope
  is as before.
\<close>

theorem zero_link_chain:
  "checkIdxArguments
     (CallExpression (Identifier ''idx'')
        [a, ArrowFunctionExpression [Identifier x] (Identifier x)]) = Inr ()
   \<and> idxVisitor_CallExpression
       \<lparr> path_node =
           CallExpression (Identifier ''idx'')
             [a, ArrowFunctionExpression [Identifier x] (Identifier x)],
         path_scope = sc \<rparr>
     = (Inr (), \<lparr> path_node = a, path_scope = sc \<rparr>)"
  by (simp add: idxVisitor_CallExpression_def new_TransformedTernary_def replaceWith_def)

section \<open>Chains of any length\<close>

text \<open>
  C2, as the code has it. For a chain of \<open>N\<close> links the builder draws \<open>N\<close> names and
  builds \<open>N\<close> conditionals: the built expression has \<open>N\<close> conditionals more than the
  base and the operands of the links have between them. When the names drawn are distinct
  and none of them is the name of an identifier in the base or in an operand, each
  temporary occurs three times in the built expression: once as the target of an
  assignment, once as the object or callee of the value after its link, and once as the
  fallback of a conditional.
\<close>

theorem guards_and_temporaries_of_a_chain:
  "length (uids (fst (constructTernary base body gen sc))) = length (decompose body)
    \<and> countNodes isConditionalExpression (expression (fst (constructTernary base body gen sc)))
      = length (decompose body) + countNodes isConditionalExpression base
        + operandCount isConditionalExpression (decompose body)
    \<and> (distinct (uids (fst (constructTernary base body gen sc))) \<and>
        (\<forall>u \<in> set (uids (fst (constructTernary base body gen sc))).
           Identifier u \<notin> set (subnodes base) \<and>
           (\<forall>operand \<in> set (concat (map operandsOf (decompose body))).
              Identifier u \<notin> set (subnodes operand))) \<longrightarrow>
        (\<forall>u \<in> set (uids (fst (constructTernary base body gen sc))).
          countNodes (\<lambda>n. n = Identifier u) (expression (fst (constructTernary base body gen sc))) = 3
        \<and> countNodes (assignsTo u) (expression (fst (constructTernary base body gen sc))) = 1
        \<and> countNodes (continuesFrom u) (expression (fst (constructTernary base body gen sc))) = 1
        \<and> countNodes (fallsBackTo u) (expression (fst (constructTernary base body gen sc))) = 1))"
proof -
  let ?names = "uids (fst (constructTernary base body gen sc))"
  let ?e = "expression (fst (constructTernary base body gen sc))"
  have len: "length ?names = length (decompose body)"
    by (rule length_uids_constructTernary)
  have e: "?e = foldGuards base (zip (decompose body) ?names)"
    by (rule expression_constructTernary)
  have fst_zip: "map fst (zip (decompose body) ?names) = decompose body"
    using len by (simp add: map_fst_zip)
  have snd_zip: "map snd (zip (decompose body) ?names) = ?names"
    using len by (simp add: map_snd_zip)
  have conds: "countNodes isConditionalExpression ?e
      = length (decompose body) + countNodes isConditionalExpression base
        + operandCount isConditionalExpression (decompose body)"
    unfolding e conditionals_foldGuards fst_zip using len by simp
  have each: "countNodes (\<lambda>n. n = Identifier u) ?e = 3 \<and> countNodes (assignsTo u) ?e = 1
      \<and> countNodes (continuesFrom u) ?e = 1 \<and> countNodes (fallsBackTo u) ?e = 1"
    if d: "distinct ?names"
      and fr: "\<forall>u \<in> set ?names.
           Identifier u \<notin> set (subnodes base) \<and>
           (\<forall>operand \<in> set (concat (map operandsOf (decompose body))).
              Identifier u \<notin> set (subnodes operand))"
      and u: "u \<in> set ?names" for u
  proof -
    have once: "count_list ?names u = 1"
      using d u by (rule count_list_distinct)
    have b: "Identifier u \<notin> set (subnodes base)"
      using fr u by blast
    have o: "\<forall>operand \<in> set (concat (map operandsOf (decompose body))).
               Identifier u \<notin> set (subnodes operand)"
      using fr u by blast
    have i: "countNodes (\<lambda>n. n = Identifier u) ?e = 3"
      unfolding e identifiers_foldGuards fst_zip snd_zip once
      using countNodes_zero [OF b, of "\<lambda>n. n = Identifier u"]
        operandCount_zero [OF o, of "\<lambda>n. n = Identifier u"]
      by (simp add: subnodes_self)
    have a: "countNodes (assignsTo u) ?e = 1"
      unfolding e assignsTo_foldGuards fst_zip snd_zip once
      using countNodes_zero [OF b, of "assignsTo u"] operandCount_zero [OF o, of "assignsTo u"]
      by (simp add: assignsTo_mentions)
    have c: "countNodes (continuesFrom u) ?e = 1"
      unfolding e continuesFrom_foldGuards fst_zip snd_zip once
      using countNodes_zero [OF b, of "continuesFrom u"]
        operandCount_zero [OF o, of "continuesFrom u"]
      by (simp add: continuesFrom_mentions)
    have f: "countNodes (fallsBackTo u) ?e = 1"
      unfolding e fallsBackTo_foldGuards fst_zip snd_zip once
      using countNodes_zero [OF b, of "fallsBackTo u"] operandCount_zero [OF o, of "fallsBackTo u"]
      by (simp add: fallsBackTo_mentions)
    show ?thesis
      using i a c f by blast
  qed
  show ?thesis
    using len conds each by blast
qed

text \<open>An instance: the chain \<open>x.b.c\<close> on the base \<open>a\<close>, with the counter as generator.\<close>

theorem guards_and_temporaries_of_a_chain_witness:
  "uids (fst (constructTernary (Identifier ''a'')
       (MemberExpression (MemberExpression (Identifier ''x'') (Identifier ''b'') False)
          (Identifier ''c'') False) counterUid 0)) = [''_ref'', ''_refx'']
   \<and> countNodes isConditionalExpression
       (expression (fst (constructTernary (Identifier ''a'')
          (MemberExpression (MemberExpression (Identifier ''x'') (Identifier ''b'') False)
             (Identifier ''c'') False) counterUid 0))) = 2
   \<and> countNodes (\<lambda>n. n = Identifier ''_ref'')
       (expression (fst (constructTernary (Identifier ''a'')
          (MemberExpression (MemberExpression (Identifier ''x'') (Identifier ''b'') False)
             (Identifier ''c'') False) counterUid 0))) = 3
   \<and> countNodes (\<lambda>n. n = Identifier ''_refx'')
       (expression (fst (constructTernary (Identifier ''a'')
          (MemberExpression (MemberExpression (Identifier ''x'') (Identifier ''b'') False)
             (Identifier ''c'') False) counterUid 0))) = 3"
proof -
  let ?body = "MemberExpression (MemberExpression (Identifier ''x'') (Identifier ''b'') False)
                 (Identifier ''c'') False"
  let ?tt = "fst (constructTernary (Identifier ''a'') ?body counterUid (0::nat))"
  have u: "uids ?tt = [''_ref'', ''_refx'']"
    by (simp add: appendPropertyAccess_def addLevel_def new_TransformedTernary_def
        counterUid_def Let_def)
  have d: "distinct (uids ?tt)"
    unfolding u by simp
  have f: "\<forall>u \<in> set (uids ?tt).
             Identifier u \<notin> set (subnodes (Identifier ''a'')) \<and>
             (\<forall>operand \<in> set (concat (map operandsOf (decompose ?body))).
                Identifier u \<notin> set (subnodes operand))"
    unfolding u by simp
  have c: "countNodes isConditionalExpression (Identifier ''a'') = 0"
    "operandCount isConditionalExpression (decompose ?body) = 0"
    by (simp_all add: countNodes_def operandCount_def)
  show ?thesis
    using guards_and_temporaries_of_a_chain
      [where base = "Identifier ''a''" and body = ?body and gen = counterUid and sc = "0::nat"]
      d f c
    unfolding u by simp
qed

text \<open>
  C2, as the claim words it, fails: in the expression built for \<open>idx(a, x => x.b)\<close>,
  which is \<open>(t = a) != null ? t.b : t\<close>, the one temporary occurs three times, not
  twice.
\<close>

theorem temporary_occurs_twice_counterexample:
  "uids (fst (constructTernary (Identifier ''a'')
       (MemberExpression (Identifier ''x'') (Identifier ''b'') False) counterUid 0))
     = [''_ref'']
   \<and> countNodes (\<lambda>n. n = Identifier ''_ref'')
       (expression (fst (constructTernary (Identifier ''a'')
          (MemberExpression (Identifier ''x'') (Identifier ''b'') False) counterUid 0)))
     \<noteq> 2"
  by (simp add: appendPropertyAccess_def addLevel_def new_TransformedTernary_def
      TransformedTernary_constructTernary_def counterUid_def Let_def countNodes_def)

text \<open>
  C7. For a chain of any length, the tests of the guards, read from the root of the
  built expression along the field \<open>consequent\<close>, are one for each link, and the test of
  a link is the binary expression with the operator \<open>!=\<close> (the loose inequality, not
  \<open>!==\<close>), the assignment \<open>temporary = previousValue\<close> on its left and the null literal
  on its right; the previous value is the base for the first link and the value after the
  link before for the others.
\<close>

theorem every_guard_tests_loosely_against_null:
  "spineTests (length (decompose body)) (expression (fst (constructTernary base body gen sc)))
   = expectedTests base
       (zip (decompose body) (uids (fst (constructTernary base body gen sc))))
   \<and> length (expectedTests base
       (zip (decompose body) (uids (fst (constructTernary base body gen sc)))))
     = length (decompose body)"
proof -
  let ?lus = "zip (decompose body) (uids (fst (constructTernary base body gen sc)))"
  have len: "length ?lus = length (decompose body)"
    by (simp add: length_uids_constructTernary)
  have "length (expectedTests p lus) = length lus" for p and lus :: "(link \<times> string) list"
    by (induction lus arbitrary: p) auto
  then show ?thesis
    using spineTests_foldGuards [of ?lus base] len
    by (simp add: expression_constructTernary [symmetric])
qed

text \<open>
  C4. In the built expression of any chain:
  \<^item> the base is the whole expression when the chain has no link, and otherwise the value
    assigned in the test of the outermost guard;
  \<^item> a run evaluates no node more often than it occurs;
  \<^item> a run evaluates the base first.

  When, moreover, none of the names drawn is the name of an identifier in the base or in
  an operand of a link:
  \<^item> there is one step for each link: each value after a link is built once and read
    through its temporary from then on;
  \<^item> every node \<open>b\<close> that is not made of a temporary (and is not the null literal, which
    the guards add) occurs as often as in the base and the operands together: no part of
    the original chain is duplicated;
  \<^item> no step of the chain is evaluated while the base is;
  \<^item> after the base, the steps evaluated are those of the links from the first one up to
    the first guard whose test fails, in the order of the chain, once each.
\<close>

theorem base_and_links_once_in_order:
  "(case decompose body of
      [] \<Rightarrow> expression (fst (constructTernary base body gen sc)) = base
    | l # ls \<Rightarrow>
        (\<exists>v. expression (fst (constructTernary base body gen sc))
           = ConditionalExpression
               (BinaryExpression ''!=''
                  (AssignmentExpression ''=''
                     (Identifier (hd (uids (fst (constructTernary base body gen sc))))) base)
                  NullLiteral)
               v
               (Identifier (hd (uids (fst (constructTernary base body gen sc)))))))
   \<and> (\<forall>b. length (filter (\<lambda>n. n = b)
                (evaluated truthy (expression (fst (constructTernary base body gen sc)))))
           \<le> countNodes (\<lambda>n. n = b) (expression (fst (constructTernary base body gen sc))))
   \<and> take (length (evaluated truthy base))
       (evaluated truthy (expression (fst (constructTernary base body gen sc))))
     = evaluated truthy base
   \<and> ((\<forall>u \<in> set (uids (fst (constructTernary base body gen sc))).
          Identifier u \<notin> set (subnodes base) \<and>
          (\<forall>operand \<in> set (concat (map operandsOf (decompose body))).
             Identifier u \<notin> set (subnodes operand))) \<longrightarrow>
       countNodes (isLinkStep (uids (fst (constructTernary base body gen sc))))
         (expression (fst (constructTernary base body gen sc))) = length (decompose body)
       \<and> (\<forall>b. b \<noteq> NullLiteral \<and>
               (\<forall>u \<in> set (uids (fst (constructTernary base body gen sc))).
                  Identifier u \<notin> set (subnodes b)) \<longrightarrow>
             countNodes (\<lambda>n. n = b) (expression (fst (constructTernary base body gen sc)))
             = countNodes (\<lambda>n. n = b) base + operandCount (\<lambda>n. n = b) (decompose body))
       \<and> filter (isLinkStep (uids (fst (constructTernary base body gen sc))))
           (evaluated truthy base) = []
       \<and> filter (isLinkStep (uids (fst (constructTernary base body gen sc))))
           (drop (length (evaluated truthy base))
              (evaluated truthy (expression (fst (constructTernary base body gen sc)))))
         = map (\<lambda>(l, u). nextValue l u)
             (take (length (takeWhile truthy
                      (expectedTests base
                         (zip (decompose body)
                            (uids (fst (constructTernary base body gen sc)))))))
                (zip (decompose body) (uids (fst (constructTernary base body gen sc))))))"
proof -
  let ?names = "uids (fst (constructTernary base body gen sc))"
  let ?e = "expression (fst (constructTernary base body gen sc))"
  let ?lus = "zip (decompose body) ?names"
  have len: "length ?names = length (decompose body)"
    by (rule length_uids_constructTernary)
  have e: "?e = foldGuards base ?lus"
    by (rule expression_constructTernary)
  have fst_zip: "map fst ?lus = decompose body"
    using len by (simp add: map_fst_zip)
  have snd_zip: "map snd ?lus = ?names"
    using len by (simp add: map_snd_zip)
  have shape: "(case decompose body of
            [] \<Rightarrow> ?e = base
          | l # ls \<Rightarrow>
              (\<exists>v. ?e = ConditionalExpression
                     (BinaryExpression ''!=''
                        (AssignmentExpression ''='' (Identifier (hd ?names)) base) NullLiteral)
                     v (Identifier (hd ?names))))"
  proof (cases "decompose body")
    case Nil
    then show ?thesis using e by simp
  next
    case (Cons l ls)
    then obtain u us where us: "?names = u # us"
      using len by (cases ?names) auto
    show ?thesis
      using e unfolding Cons us by (simp add: guard_def)
  qed
  have cond: "countNodes (isLinkStep ?names) ?e = length (decompose body)
      \<and> (\<forall>b. b \<noteq> NullLiteral \<and> (\<forall>u \<in> set ?names. Identifier u \<notin> set (subnodes b)) \<longrightarrow>
            countNodes (\<lambda>n. n = b) ?e
            = countNodes (\<lambda>n. n = b) base + operandCount (\<lambda>n. n = b) (decompose body))
      \<and> filter (isLinkStep ?names) (evaluated truthy base) = []
      \<and> filter (isLinkStep ?names)
          (drop (length (evaluated truthy base)) (evaluated truthy ?e))
        = map (\<lambda>(l, u). nextValue l u)
            (take (length (takeWhile truthy (expectedTests base ?lus))) ?lus)"
    if fresh: "\<forall>u \<in> set ?names.
          Identifier u \<notin> set (subnodes base) \<and>
          (\<forall>operand \<in> set (concat (map operandsOf (decompose body))).
             Identifier u \<notin> set (subnodes operand))"
  proof -
    have fb: "\<forall>u \<in> set ?names. Identifier u \<notin> set (subnodes base)"
      using fresh by blast
    have fo: "\<forall>u \<in> set ?names.
                \<forall>operand \<in> set (concat (map operandsOf (decompose body))).
                  Identifier u \<notin> set (subnodes operand)"
      using fresh by blast
    have zb: "countNodes (isLinkStep ?names) base = 0"
    proof -
      have "\<not> isLinkStep ?names n" if "n \<in> set (subnodes base)" for n
        using that fb isLinkStep_mentions subnodes_trans by blast
      then show ?thesis by (simp add: countNodes_def)
    qed
    have zo: "operandCount (isLinkStep ?names) (decompose body) = 0"
    proof -
      have "\<not> isLinkStep ?names n"
        if "operand \<in> set (concat (map operandsOf (decompose body)))"
          and "n \<in> set (subnodes operand)" for n operand
        using that fo isLinkStep_mentions subnodes_trans by blast
      then have "countNodes (isLinkStep ?names) operand = 0"
        if "operand \<in> set (concat (map operandsOf (decompose body)))" for operand
        using that by (simp add: countNodes_def)
      then show ?thesis by (simp add: operandCount_def)
    qed
    have steps: "countNodes (isLinkStep ?names) ?e = length (decompose body)"
      unfolding e using linkSteps_foldGuards [of ?lus ?names base] zb zo len
      by (simp add: fst_zip snd_zip)
    have orig: "countNodes (\<lambda>n. n = b) ?e
            = countNodes (\<lambda>n. n = b) base + operandCount (\<lambda>n. n = b) (decompose body)"
      if "b \<noteq> NullLiteral" "\<forall>u \<in> set ?names. Identifier u \<notin> set (subnodes b)" for b
      unfolding e using original_foldGuards [of b ?lus base] that
      by (simp add: fst_zip snd_zip)
    have nobase: "filter (isLinkStep ?names) (evaluated truthy base) = []"
      using fb by (rule no_link_step_evaluated)
    have order: "filter (isLinkStep ?names)
          (drop (length (evaluated truthy base)) (evaluated truthy ?e))
        = map (\<lambda>(l, u). nextValue l u)
            (take (length (takeWhile truthy (expectedTests base ?lus))) ?lus)"
      unfolding e using link_steps_foldGuards [of ?lus ?names truthy base] fo
      by (simp add: fst_zip snd_zip)
    show ?thesis
      using steps orig nobase order by blast
  qed
  have once: "length (filter (\<lambda>n. n = b) (evaluated truthy ?e)) \<le> countNodes (\<lambda>n. n = b) ?e"
    for b
    by (rule evaluated_at_most_once)
  have first: "take (length (evaluated truthy base)) (evaluated truthy ?e) = evaluated truthy base"
    unfolding e by (rule evaluated_foldGuards_prefix)
  show ?thesis
    using shape once first cond by blast
qed

theorem base_and_links_once_in_order_witness:
  "countNodes (\<lambda>n. n = Identifier ''a'')
     (expression (fst (constructTernary (Identifier ''a'')
        (MemberExpression (MemberExpression (Identifier ''x'') (Identifier ''b'') False)
           (Identifier ''c'') False) counterUid 0))) = 1
   \<and> take 1
       (evaluated
          (\<lambda>t. t = BinaryExpression ''!=''
                     (AssignmentExpression ''='' (Identifier ''_ref'') (Identifier ''a''))
                     NullLiteral)
          (expression (fst (constructTernary (Identifier ''a'')
             (MemberExpression (MemberExpression (Identifier ''x'') (Identifier ''b'') False)
                (Identifier ''c'') False) counterUid 0))))
     = [Identifier ''a'']
   \<and> filter (isLinkStep [''_ref'', ''_refx''])
       (drop 1
          (evaluated
             (\<lambda>t. t = BinaryExpression ''!=''
                        (AssignmentExpression ''='' (Identifier ''_ref'') (Identifier ''a''))
                        NullLiteral)
             (expression (fst (constructTernary (Identifier ''a'')
                (MemberExpression (MemberExpression (Identifier ''x'') (Identifier ''b'') False)
                   (Identifier ''c'') False) counterUid 0)))))
     = [MemberExpression (Identifier ''_ref'') (Identifier ''b'') False]"
proof -
  let ?body = "MemberExpression (MemberExpression (Identifier ''x'') (Identifier ''b'') False)
                 (Identifier ''c'') False"
  let ?tt = "fst (constructTernary (Identifier ''a'') ?body counterUid (0::nat))"
  let ?truthy = "\<lambda>t. t = BinaryExpression ''!=''
                     (AssignmentExpression ''='' (Identifier ''_ref'') (Identifier ''a''))
                     NullLiteral"
  have u: "uids ?tt = [''_ref'', ''_refx'']"
    by (simp add: appendPropertyAccess_def addLevel_def new_TransformedTernary_def
        counterUid_def Let_def)
  have f: "\<forall>u \<in> set (uids ?tt).
             Identifier u \<notin> set (subnodes (Identifier ''a'')) \<and>
             (\<forall>operand \<in> set (concat (map operandsOf (decompose ?body))).
                Identifier u \<notin> set (subnodes operand))"
    unfolding u by simp
  note t = base_and_links_once_in_order
    [where base = "Identifier ''a''" and body = ?body and gen = counterUid and sc = "0::nat"
       and truthy = ?truthy, unfolded u]
  have c: "countNodes (\<lambda>n. n = Identifier ''a'') (Identifier ''a'') = 1"
    "operandCount (\<lambda>n. n = Identifier ''a'') (decompose ?body) = 0"
    by (simp_all add: countNodes_def operandCount_def)
  have 1: "countNodes (\<lambda>n. n = Identifier ''a'') (expression ?tt) = 1"
    using t c by simp
  have 2: "take 1 (evaluated ?truthy (expression ?tt)) = [Identifier ''a'']"
    using t by simp
  have 3: "filter (isLinkStep [''_ref'', ''_refx''])
             (drop 1 (evaluated ?truthy (expression ?tt)))
           = [MemberExpression (Identifier ''_ref'') (Identifier ''b'') False]"
    using t by simp
  show ?thesis
    using 1 2 3 by blast
qed

section \<open>The validator\<close>

lemma lambdaOf_two:
  "length args = 2 \<Longrightarrow>
   lambdaOf args =
     (case args ! 1 of ArrowFunctionExpression params body \<Rightarrow> Some (params, body)
      | _ \<Rightarrow> None)"
proof -
  assume "length args = 2"
  then obtain a0 a1 where "args = [a0, a1]"
    by (cases args; cases "tl args") auto
  then show ?thesis
    by (cases a1) simp_all
qed

lemma rootedAt_getExpressionChainBase:
  "rootedAt x body = (getExpressionChainBase body = Identifier x)"
  by (induction body rule: getExpressionChainBase.induct) auto

lemma parameter_matches:
  "(isIdentifier p \<and> isIdentifier (getExpressionChainBase body) \<and>
    name p = name (getExpressionChainBase body))
   = (case p of Identifier x \<Rightarrow> rootedAt x body | _ \<Rightarrow> False)"
  by (cases p; cases "getExpressionChainBase body")
    (auto simp: rootedAt_getExpressionChainBase)

lemma checkIdxArguments_firstViolated:
  "checkIdxArguments (CallExpression callee args) =
     (case firstViolated args of
        None \<Rightarrow> Inr ()
      | Some m \<Rightarrow>
          Inl (CodeFrameError
                 (case m of
                    ExactlyTwoArguments \<Rightarrow> CallExpression callee args
                  | MustBeArrowFunction \<Rightarrow> args ! 1
                  | BodyMustBeExpression \<Rightarrow> snd (the (lambdaOf args))
                  | ExactlyOneParameter \<Rightarrow>
                      (if 2 < length (fst (the (lambdaOf args)))
                       then fst (the (lambdaOf args)) ! 2 else args ! 1)
                  | ParameterMustMatchBase \<Rightarrow> fst (the (lambdaOf args)) ! 0)
                 m))"
proof (cases "length args = 2")
  case False
  then show ?thesis
    by (simp add: firstViolated_def checkOrder_def)
next
  case True
  note l2 = lambdaOf_two [OF True]
  show ?thesis
  proof (cases "args ! 1")
    case (ArrowFunctionExpression params body)
    then have lam: "lambdaOf args = Some (params, body)"
      using l2 by simp
    show ?thesis
    proof (cases params)
      case Nil
      then show ?thesis
        using True ArrowFunctionExpression lam
        by (simp add: firstViolated_def checkOrder_def)
    next
      case (Cons p ps)
      have m: "conditionHolds args ParameterMustMatchBase
               = (isIdentifier p \<and> isIdentifier (getExpressionChainBase body) \<and>
                  name p = name (getExpressionChainBase body))"
        unfolding parameter_matches using lam Cons by (cases p) simp_all
      show ?thesis
        using True ArrowFunctionExpression lam Cons m
        by (cases ps)
          (auto simp add: firstViolated_def checkOrder_def Let_def
            simp del: conditionHolds.simps(5))
    qed
  qed (use True l2 in \<open>simp_all add: firstViolated_def checkOrder_def\<close>)
qed

text \<open>
  C5. On a call, the validator returns normally when the five conditions of the
  specification hold (two arguments; the second an arrow function; its body an
  expression; one parameter; the parameter an identifier and the body a chain rooted at
  an identifier of that name), and otherwise throws the error of the first condition that
  does not hold, in the order arity (the arity error), arrow function, expression body,
  parameter count (the three reasons of the shape error), parameter match (the parameter
  mismatch error): whatever later conditions fail too, the message thrown is that of the
  earliest one.
\<close>

theorem validator_order:
  "(case firstViolated args of
      None \<Rightarrow> checkIdxArguments (CallExpression callee args) = Inr ()
    | Some m \<Rightarrow>
        (\<exists>n. checkIdxArguments (CallExpression callee args) = Inl (CodeFrameError n m)))"
proof (cases "firstViolated args")
  case None
  then show ?thesis
    by (simp add: checkIdxArguments_firstViolated del: checkIdxArguments.simps)
next
  case (Some m)
  then show ?thesis
    by (cases m) (simp_all add: checkIdxArguments_firstViolated del: checkIdxArguments.simps)
qed

text \<open>
  C10. The call has two arguments, the second an arrow function with one parameter and
  an expression as body, so the arity and shape checks pass. If the parameter is not an
  identifier (a destructuring pattern, say), or the base of the body's chain is not an
  identifier, the validator throws the parameter mismatch error, pointing at the
  parameter.
\<close>

theorem mismatch_when_not_identifiers:
  assumes "isExpression body"
    and "\<not> isIdentifier p \<or> \<not> isIdentifier (getExpressionChainBase body)"
  shows "checkIdxArguments
           (CallExpression callee [base, ArrowFunctionExpression [p] body])
         = Inl (CodeFrameError p ParameterMustMatchBase)"
  using assms by (auto simp: Let_def)

text \<open>
  Two instances: \<open>idx(a, ({b}) => b)\<close>, whose parameter is an object pattern, and
  \<open>idx(a, x => this.b)\<close>, whose chain starts at \<open>this\<close>.
\<close>

theorem mismatch_when_not_identifiers_witness:
  "checkIdxArguments
     (CallExpression (Identifier ''idx'')
        [Identifier ''a'',
         ArrowFunctionExpression [OtherNode ''ObjectPattern'' [Identifier ''b'']]
           (Identifier ''b'')])
   = Inl (CodeFrameError (OtherNode ''ObjectPattern'' [Identifier ''b''])
            ParameterMustMatchBase)
   \<and> checkIdxArguments
       (CallExpression (Identifier ''idx'')
          [Identifier ''a'',
           ArrowFunctionExpression [Identifier ''x'']
             (MemberExpression (OtherExpression ''ThisExpression'' []) (Identifier ''b'')
                False)])
     = Inl (CodeFrameError (Identifier ''x'') ParameterMustMatchBase)"
proof -
  have 1: "isExpression (Identifier ''b'')" by simp
  have 2: "\<not> isIdentifier (OtherNode ''ObjectPattern'' [Identifier ''b''])
           \<or> \<not> isIdentifier (getExpressionChainBase (Identifier ''b''))" by simp
  have 3: "isExpression
             (MemberExpression (OtherExpression ''ThisExpression'' []) (Identifier ''b'')
                False)" by simp
  have 4: "\<not> isIdentifier (Identifier ''x'')
           \<or> \<not> isIdentifier (getExpressionChainBase
                 (MemberExpression (OtherExpression ''ThisExpression'' []) (Identifier ''b'')
                    False))" by simp
  show ?thesis
    using mismatch_when_not_identifiers [OF 1 2] mismatch_when_not_identifiers [OF 3 4]
    by blast
qed

section \<open>The visitor of call expressions\<close>

text \<open>
  C6. When the node visited is a call of \<open>idx\<close> and the validation throws, whichever the
  error, the visitor throws that error and the path is as it was: the node is not
  replaced, no name is drawn from the generator and nothing is declared in the scope.
\<close>

theorem failed_validation_changes_nothing:
  assumes "isIdxCall (path_node path)"
    and "checkIdxArguments (path_node path) = Inl e"
  shows "idxVisitor_CallExpression path = (Inl e, path)"
  using assms by (simp add: idxVisitor_CallExpression_def)

text \<open>
  Three instances, one for each kind of error: \<open>idx(a)\<close>, \<open>idx(a, x => {})\<close> and
  \<open>idx(a, y => x.b)\<close>.
\<close>

theorem failed_validation_changes_nothing_witness:
  "idxVisitor_CallExpression
     \<lparr> path_node = CallExpression (Identifier ''idx'') [Identifier ''a''],
       path_scope = \<lparr> generateUidIdentifier = counterUid, uidState = 0, declared = [] \<rparr> \<rparr>
   = (Inl (CodeFrameError (CallExpression (Identifier ''idx'') [Identifier ''a''])
             ExactlyTwoArguments),
      \<lparr> path_node = CallExpression (Identifier ''idx'') [Identifier ''a''],
        path_scope = \<lparr> generateUidIdentifier = counterUid, uidState = 0, declared = [] \<rparr> \<rparr>)
   \<and> idxVisitor_CallExpression
       \<lparr> path_node =
           CallExpression (Identifier ''idx'')
             [Identifier ''a'', ArrowFunctionExpression [Identifier ''x''] (BlockStatement [])],
         path_scope = \<lparr> generateUidIdentifier = counterUid, uidState = 0, declared = [] \<rparr> \<rparr>
     = (Inl (CodeFrameError (BlockStatement []) BodyMustBeExpression),
        \<lparr> path_node =
            CallExpression (Identifier ''idx'')
              [Identifier ''a'', ArrowFunctionExpression [Identifier ''x''] (BlockStatement [])],
          path_scope = \<lparr> generateUidIdentifier = counterUid, uidState = 0, declared = [] \<rparr> \<rparr>)
   \<and> idxVisitor_CallExpression
       \<lparr> path_node =
           CallExpression (Identifier ''idx'')
             [Identifier ''a'',
              ArrowFunctionExpression [Identifier ''y'']
                (MemberExpression (Identifier ''x'') (Identifier ''b'') False)],
         path_scope = \<lparr> generateUidIdentifier = counterUid, uidState = 0, declared = [] \<rparr> \<rparr>
     = (Inl (CodeFrameError (Identifier ''y'') ParameterMustMatchBase),
        \<lparr> path_node =
            CallExpression (Identifier ''idx'')
              [Identifier ''a'',
               ArrowFunctionExpression [Identifier ''y'']
                 (MemberExpression (Identifier ''x'') (Identifier ''b'') False)],
          path_scope = \<lparr> generateUidIdentifier = counterUid, uidState = 0, declared = [] \<rparr> \<rparr>)"
proof -
  let ?sc = "\<lparr> generateUidIdentifier = counterUid, uidState = 0::nat, declared = [] \<rparr>"
  let ?p1 = "\<lparr> path_node = CallExpression (Identifier ''idx'') [Identifier ''a''],
               path_scope = ?sc \<rparr>"
  let ?p2 = "\<lparr> path_node =
                 CallExpression (Identifier ''idx'')
                   [Identifier ''a'',
                    ArrowFunctionExpression [Identifier ''x''] (BlockStatement [])],
               path_scope = ?sc \<rparr>"
  let ?p3 = "\<lparr> path_node =
                 CallExpression (Identifier ''idx'')
                   [Identifier ''a'',
                    ArrowFunctionExpression [Identifier ''y'']
                      (MemberExpression (Identifier ''x'') (Identifier ''b'') False)],
               path_scope = ?sc \<rparr>"
  have i1: "isIdxCall (path_node ?p1)" by simp
  have c1: "checkIdxArguments (path_node ?p1)
            = Inl (CodeFrameError (CallExpression (Identifier ''idx'') [Identifier ''a''])
                     ExactlyTwoArguments)" by simp
  have i2: "isIdxCall (path_node ?p2)" by simp
  have c2: "checkIdxArguments (path_node ?p2)
            = Inl (CodeFrameError (BlockStatement []) BodyMustBeExpression)" by simp
  have i3: "isIdxCall (path_node ?p3)" by simp
  have c3: "checkIdxArguments (path_node ?p3)
            = Inl (CodeFrameError (Identifier ''y'') ParameterMustMatchBase)" by simp
  show ?thesis
    using failed_validation_changes_nothing [OF i1 c1]
      failed_validation_changes_nothing [OF i2 c2]
      failed_validation_changes_nothing [OF i3 c3]
    by blast
qed

section \<open>The visitor of the program and its fast exit\<close>










end
